theory Spec2Isabelle
  imports Main "HOL-Library.AList" "HOL-Library.Multiset"
begin

section \<open>Numbers, process ids and memory blocks\<close>

text \<open>
  The simulator (script.js) computes with JavaScript numbers. Every number it handles is
  an integer, except that \<^verbatim>\<open>parseInt\<close> of a form field that holds no number is
  \<^verbatim>\<open>NaN\<close>, and so is \<^verbatim>\<open>tickCount - undefined\<close>. A value that may be
  \<^verbatim>\<open>NaN\<close> is a \<open>jsnum\<close>; every comparison with \<^verbatim>\<open>NaN\<close> is false and
  arithmetic on it gives \<^verbatim>\<open>NaN\<close>.
\<close>

datatype jsnum = Num int | NaN

fun js_lt :: "jsnum \<Rightarrow> int \<Rightarrow> bool" where
  "js_lt (Num a) b = (a < b)"
| "js_lt NaN b = False"

fun js_gt :: "jsnum \<Rightarrow> int \<Rightarrow> bool" where
  "js_gt (Num a) b = (a > b)"
| "js_gt NaN b = False"

fun js_le :: "jsnum \<Rightarrow> int \<Rightarrow> bool" where
  "js_le (Num a) b = (a \<le> b)"
| "js_le NaN b = False"

fun js_sub :: "jsnum \<Rightarrow> jsnum \<Rightarrow> jsnum" where
  "js_sub (Num a) (Num b) = Num (a - b)"
| "js_sub _ _ = NaN"

fun js_add :: "jsnum \<Rightarrow> jsnum \<Rightarrow> jsnum" where
  "js_add (Num a) (Num b) = Num (a + b)"
| "js_add _ _ = NaN"

type_synonym pid = nat

text \<open>A block is the pair \<^verbatim>\<open>[start, size]\<close>.\<close>

type_synonym block = "int \<times> int"

section \<open>class MemoryManager\<close>

text \<open>
  \<^verbatim>\<open>free\<close> is the array of free blocks, \<^verbatim>\<open>allocs\<close> the \<^verbatim>\<open>Map\<close> from pid to
  block, and \<open>total_mem\<close> the field \<^verbatim>\<open>total\<close>. A JavaScript \<^verbatim>\<open>Map\<close> keeps its keys in insertion order, \<^verbatim>\<open>set\<close> on a key
  it holds replaces the value in place and \<^verbatim>\<open>delete\<close> removes the key: this is an
  association list under \<open>AList.update\<close>, \<open>AList.delete\<close> and \<open>map_of\<close>.
\<close>

record MemoryManager =
  total_mem :: int
  free :: "block list"
  allocs :: "(pid \<times> block) list"

definition new_MemoryManager :: "int \<Rightarrow> MemoryManager" where
  "new_MemoryManager tot = \<lparr>total_mem = tot, free = [(0, tot)], allocs = []\<rparr>"

text \<open>
  The scan of \<^verbatim>\<open>firstFitAllocate\<close>: the loop over \<^verbatim>\<open>idx\<close> stops at the first
  block with \<^verbatim>\<open>sz >= size\<close>, which it removes (\<^verbatim>\<open>splice(idx, 1)\<close>) or replaces by
  \<^verbatim>\<open>[start + size, sz - size]\<close>. The result is the block handed out and the new free
  list, or \<open>None\<close> when the loop runs to its end.
\<close>

fun first_fit :: "int \<Rightarrow> block list \<Rightarrow> (block \<times> block list) option" where
  "first_fit req [] = None"
| "first_fit req ((start, sz) # rest) =
     (if sz \<ge> req
      then Some ((start, req), if sz = req then rest else (start + req, sz - req) # rest)
      else map_option (\<lambda>(b, fr). (b, (start, sz) # fr)) (first_fit req rest))"

text \<open>
  \<^verbatim>\<open>firstFitAllocate(pid, size)\<close> returns the block or \<^verbatim>\<open>null\<close>, and the manager
  as it leaves it. With \<^verbatim>\<open>size = NaN\<close> every test \<^verbatim>\<open>sz >= size\<close> is false, so the
  loop ends without a block.
\<close>

definition firstFitAllocate ::
  "pid \<Rightarrow> jsnum \<Rightarrow> MemoryManager \<Rightarrow> block option \<times> MemoryManager" where
  "firstFitAllocate p req m =
     (case req of
        NaN \<Rightarrow> (None, m)
      | Num n \<Rightarrow>
          (case first_fit n (free m) of
             None \<Rightarrow> (None, m)
           | Some (b, fr) \<Rightarrow> (Some b, m\<lparr>free := fr, allocs := AList.update p b (allocs m)\<rparr>)))"

text \<open>
  One round of the merge loop of \<^verbatim>\<open>freeAlloc\<close>: \<^verbatim>\<open>merged\<close> so far and the next
  block \<^verbatim>\<open>[s, sz]\<close> of the sorted list.
\<close>

definition merge_step :: "block list \<Rightarrow> block \<Rightarrow> block list" where
  "merge_step merged b =
     (case b of (s, sz) \<Rightarrow>
        if length merged = 0 then [(s, sz)]
        else (case merged ! (length merged - 1) of (lastS, lastSz) \<Rightarrow>
                if lastS + lastSz = s
                then merged[length merged - 1 := (lastS, lastSz + sz)]
                else merged @ [(s, sz)]))"

text \<open>
  \<^verbatim>\<open>freeAlloc(pid)\<close>: nothing when the pid holds no block; otherwise the block is
  removed from \<^verbatim>\<open>allocs\<close>, pushed on \<^verbatim>\<open>free\<close>, the list is sorted by start
  (\<^verbatim>\<open>Array.prototype.sort\<close> is stable, as \<open>sort_key\<close> is) and merged.
\<close>

definition freeAlloc :: "pid \<Rightarrow> MemoryManager \<Rightarrow> MemoryManager" where
  "freeAlloc p m =
     (case map_of (allocs m) p of
        None \<Rightarrow> m
      | Some freed \<Rightarrow>
          m\<lparr>allocs := AList.delete p (allocs m),
            free := foldl merge_step [] (sort_key fst (free m @ [freed]))\<rparr>)"

definition freeSpace :: "MemoryManager \<Rightarrow> int" where
  "freeSpace m = foldl (\<lambda>t b. case b of (_, sz) \<Rightarrow> t + sz) 0 (free m)"

text \<open>The sum of the sizes of the allocated blocks (the values of \<^verbatim>\<open>allocs\<close>).\<close>

definition usedSpace :: "MemoryManager \<Rightarrow> int" where
  "usedSpace m = sum_list (map (\<lambda>e. snd (snd e)) (allocs m))"

text \<open>A sequence of calls on one manager.\<close>

datatype mm_call = Allocate pid int | Release pid

fun apply_call :: "MemoryManager \<Rightarrow> mm_call \<Rightarrow> MemoryManager" where
  "apply_call m (Allocate p n) = snd (firstFitAllocate p (Num n) m)"
| "apply_call m (Release p) = freeAlloc p m"

definition run_calls :: "mm_call list \<Rightarrow> MemoryManager \<Rightarrow> MemoryManager" where
  "run_calls cs m = foldl apply_call m cs"

section \<open>The simulation state\<close>

text \<open>
  The five values the script assigns to \<^verbatim>\<open>state\<close>. A \<open>Process\<close> is the object of
  class \<^verbatim>\<open>Process\<close>; the field \<^verbatim>\<open>pid\<close> is \<open>proc_pid\<close> here.
\<close>

datatype pstate = Nuevo | Listo | Ejecutando | Bloqueado | EsperandoMem

record Process =
  proc_pid :: pid
  memReq :: jsnum
  totalCpu :: jsnum
  remainingCpu :: jsnum
  state :: pstate
  memBlock :: "block option"
  quantumLeft :: int
  ioRemaining :: int

text \<open>
  The entries of \<^verbatim>\<open>CONFIG\<close> the engine reads. The two probabilities and the tick
  period are left out: the random draws of a tick are its input (\<open>Draws\<close> below).
\<close>

record Config =
  MEM_TOTAL :: int
  MIN_PROC_MEM :: int
  MAX_PROC_MEM :: int
  MIN_CPU_BURST :: int
  MAX_CPU_BURST :: int
  MIN_IO :: int
  MAX_IO :: int
  TIME_QUANTUM :: int

definition CONFIG :: Config where
  "CONFIG = \<lparr>MEM_TOTAL = 1024, MIN_PROC_MEM = 20, MAX_PROC_MEM = 300, MIN_CPU_BURST = 3,
     MAX_CPU_BURST = 15, MIN_IO = 2, MAX_IO = 6, TIME_QUANTUM = 3\<rparr>"

text \<open>
  The global variables of the script that the engine reads or writes
  (\<^verbatim>\<open>isRunning\<close>, \<^verbatim>\<open>tickInterval\<close>, \<^verbatim>\<open>simulationStartTime\<close> and
  \<^verbatim>\<open>totalResponseTime\<close> belong to the timer and the page). The three \<^verbatim>\<open>Map\<close>s are
  association lists, as \<^verbatim>\<open>allocs\<close> is.
\<close>

record Sim =
  PID_COUNTER :: pid
  tickCount :: int
  completedProcesses :: int
  totalWaitTime :: jsnum
  contextSwitches :: int
  totalProcessesCreated :: int
  processStartTimes :: "(pid \<times> int) list"
  processWaitTimes :: "(pid \<times> jsnum) list"
  processes :: "(pid \<times> Process) list"
  readyQueue :: "pid list"
  ioQueue :: "pid list"
  waitingForMem :: "pid list"
  currentRunning :: "pid option"
  memoryManager :: MemoryManager

text \<open>The state the script starts in, and \<^verbatim>\<open>resetSimulation\<close> restores.\<close>

definition initial :: "Config \<Rightarrow> Sim" where
  "initial cfg = \<lparr>PID_COUNTER = 1, tickCount = 0, completedProcesses = 0,
     totalWaitTime = Num 0, contextSwitches = 0, totalProcessesCreated = 0,
     processStartTimes = [], processWaitTimes = [], processes = [], readyQueue = [],
     ioQueue = [], waitingForMem = [], currentRunning = None,
     memoryManager = new_MemoryManager (MEM_TOTAL cfg)\<rparr>"

text \<open>
  What \<^verbatim>\<open>Math.random\<close> and \<^verbatim>\<open>randomInt\<close> give during one tick:
  \<open>spawn\<close> is \<open>None\<close> when the draw is not below \<^verbatim>\<open>NEW_PROC_PROB\<close>, and else the
  memory requirement and the CPU burst drawn; \<open>io\<close> is \<open>None\<close> when the draw is not
  below \<^verbatim>\<open>IO_PROB\<close>, and else the I/O duration drawn.
\<close>

record Draws =
  spawn :: "(int \<times> int) option"
  io :: "int option"

text \<open>
  A \<^verbatim>\<open>TypeError\<close> leaves the globals as they are at the throw: \<open>Threw\<close> holds that
  state. \<open>UndefinedProperty\<close> is the read of a property of \<^verbatim>\<open>undefined\<close>,
  \<open>NotAFunction\<close> the call of a value that is no function.
\<close>

datatype fault = UndefinedProperty | NotAFunction

datatype outcome = Done Sim | Threw fault Sim

definition and_then :: "outcome \<Rightarrow> (Sim \<Rightarrow> outcome) \<Rightarrow> outcome" where
  "and_then r f = (case r of Done s \<Rightarrow> f s | Threw e s \<Rightarrow> Threw e s)"

fun state_of :: "outcome \<Rightarrow> Sim" where
  "state_of (Done s) = s"
| "state_of (Threw e s) = s"

text \<open>\<^verbatim>\<open>xs.splice(i, 1)\<close>; nothing is removed when \<open>i\<close> is past the end.\<close>

definition splice1 :: "nat \<Rightarrow> 'a list \<Rightarrow> 'a list" where
  "splice1 i xs = take i xs @ drop (Suc i) xs"

section \<open>Creating processes\<close>

text \<open>\<^verbatim>\<open>new Process(memReq, cpuBurst)\<close>, with the \<^verbatim>\<open>nextPid()\<close> it calls.\<close>

definition new_Process :: "Config \<Rightarrow> jsnum \<Rightarrow> jsnum \<Rightarrow> Sim \<Rightarrow> Process \<times> Sim" where
  "new_Process cfg mr cb s =
     (\<lparr>proc_pid = PID_COUNTER s, memReq = mr, totalCpu = cb, remainingCpu = cb,
       state = Nuevo, memBlock = None, quantumLeft = TIME_QUANTUM cfg, ioRemaining = 0\<rparr>,
      s\<lparr>PID_COUNTER := PID_COUNTER s + 1\<rparr>)"

text \<open>
  \<^verbatim>\<open>tryAllocateAndEnqueue(proc)\<close>. \<open>proc\<close> is the object its callers have just stored
  in \<^verbatim>\<open>processes\<close> under \<^verbatim>\<open>proc.pid\<close>, so the writes to its fields are writes to
  that entry.
\<close>

definition tryAllocateAndEnqueue :: "Process \<Rightarrow> Sim \<Rightarrow> Sim" where
  "tryAllocateAndEnqueue proc s =
     (case firstFitAllocate (proc_pid proc) (memReq proc) (memoryManager s) of
        (Some alloc, m') \<Rightarrow>
          s\<lparr>memoryManager := m',
            processes := AList.update (proc_pid proc)
              (proc\<lparr>memBlock := Some alloc, state := Listo\<rparr>) (processes s),
            readyQueue := readyQueue s @ [proc_pid proc]\<rparr>
      | (None, m') \<Rightarrow>
          s\<lparr>memoryManager := m',
            processes := AList.update (proc_pid proc)
              (proc\<lparr>state := EsperandoMem\<rparr>) (processes s),
            waitingForMem := waitingForMem s @ [proc_pid proc]\<rparr>)"

definition maybeCreateRandomProcess :: "Config \<Rightarrow> Draws \<Rightarrow> Sim \<Rightarrow> Sim" where
  "maybeCreateRandomProcess cfg d s =
     (case spawn d of
        None \<Rightarrow> s
      | Some (mr, cb) \<Rightarrow>
          (case new_Process cfg (Num mr) (Num cb) s of
             (p0, s1) \<Rightarrow>
               let p = p0\<lparr>state := Nuevo\<rparr>;
                   s2 = s1\<lparr>processes := AList.update (proc_pid p) p (processes s1),
                          processStartTimes :=
                            AList.update (proc_pid p) (tickCount s1) (processStartTimes s1),
                          totalProcessesCreated := totalProcessesCreated s1 + 1\<rparr>
               in tryAllocateAndEnqueue p s2))"

text \<open>
  \<^verbatim>\<open>createManualProcess()\<close>. Its two arguments are what \<^verbatim>\<open>parseInt\<close> returns for
  the two form fields; the result is the text of the error toast, if one is shown, and
  the state.
\<close>

definition createManualProcess ::
  "Config \<Rightarrow> jsnum \<Rightarrow> jsnum \<Rightarrow> Sim \<Rightarrow> string option \<times> Sim" where
  "createManualProcess cfg mr cb s =
     (if js_lt mr (MIN_PROC_MEM cfg) \<or> js_gt mr (MAX_PROC_MEM cfg)
      then (Some ''Memoria debe estar entre 20-300 KB'', s)
      else if js_lt cb (MIN_CPU_BURST cfg) \<or> js_gt cb (MAX_CPU_BURST cfg)
      then (Some ''CPU Burst debe estar entre 3-15'', s)
      else
        (case new_Process cfg mr cb s of
           (p0, s1) \<Rightarrow>
             let p = p0\<lparr>state := Nuevo\<rparr>;
                 s2 = s1\<lparr>processes := AList.update (proc_pid p) p (processes s1),
                        processStartTimes :=
                          AList.update (proc_pid p) (tickCount s1) (processStartTimes s1),
                        totalProcessesCreated := totalProcessesCreated s1 + 1\<rparr>
             in (None, tryAllocateAndEnqueue p s2)))"

section \<open>Releasing memory and ending a process\<close>

text \<open>
  The loop of \<^verbatim>\<open>freeMemoryAndAwaken\<close> over \<^verbatim>\<open>toTry\<close>, the copy of
  \<^verbatim>\<open>waitingForMem\<close> taken before it starts. \<^verbatim>\<open>indexOf\<close> with \<^verbatim>\<open>splice\<close>
  removes the first occurrence of the pid, as \<open>remove1\<close> does; the loop ends at the first
  process that gets no block (\<^verbatim>\<open>break\<close>).
\<close>

fun awaken_loop :: "pid list \<Rightarrow> Sim \<Rightarrow> Sim" where
  "awaken_loop [] s = s"
| "awaken_loop (wpid # toTry) s =
     (case map_of (processes s) wpid of
        None \<Rightarrow> awaken_loop toTry (s\<lparr>waitingForMem := remove1 wpid (waitingForMem s)\<rparr>)
      | Some p \<Rightarrow>
          (case firstFitAllocate (proc_pid p) (memReq p) (memoryManager s) of
             (Some alloc, m') \<Rightarrow>
               awaken_loop toTry
                 (s\<lparr>memoryManager := m',
                    processes := AList.update wpid
                      (p\<lparr>memBlock := Some alloc, state := Listo\<rparr>) (processes s),
                    waitingForMem := remove1 wpid (waitingForMem s),
                    readyQueue := readyQueue s @ [wpid]\<rparr>)
           | (None, m') \<Rightarrow> s\<lparr>memoryManager := m'\<rparr>))"

definition freeMemoryAndAwaken :: "pid \<Rightarrow> Sim \<Rightarrow> Sim" where
  "freeMemoryAndAwaken k s =
     (let s1 = s\<lparr>memoryManager := freeAlloc k (memoryManager s)\<rparr>
      in awaken_loop (waitingForMem s1) s1)"

text \<open>
  \<^verbatim>\<open>processMemoryQueue()\<close>, from \<^verbatim>\<open>i = waitingForMem.length - 1\<close> down. Its
  body evaluates \<^verbatim>\<open>memoryManager.alloc(p.pid, p.memReq)\<close> with
  \<^verbatim>\<open>p = processes.get(pid)\<close> unchecked: when the pid has no process, reading
  \<^verbatim>\<open>p.pid\<close> throws; when it has one, the call throws, because class
  \<^verbatim>\<open>MemoryManager\<close> has the methods \<^verbatim>\<open>firstFitAllocate\<close>, \<^verbatim>\<open>freeAlloc\<close>,
  \<^verbatim>\<open>usedBlocks\<close>, \<^verbatim>\<open>freeSpace\<close>, \<^verbatim>\<open>calculateFragmentation\<close> and
  \<^verbatim>\<open>debug\<close> and no method \<^verbatim>\<open>alloc\<close>, and nothing in the script adds one.
\<close>

fun processMemoryQueue_loop :: "nat \<Rightarrow> Sim \<Rightarrow> outcome" where
  "processMemoryQueue_loop 0 s = Done s"
| "processMemoryQueue_loop (Suc i) s =
     (case (if i < length (waitingForMem s)
            then map_of (processes s) (waitingForMem s ! i) else None) of
        None \<Rightarrow> Threw UndefinedProperty s
      | Some p \<Rightarrow> Threw NotAFunction s)"

definition processMemoryQueue :: "Sim \<Rightarrow> outcome" where
  "processMemoryQueue s = processMemoryQueue_loop (length (waitingForMem s)) s"

text \<open>
  \<^verbatim>\<open>terminateProcess(pid)\<close>. \<^verbatim>\<open>p.memBlock\<close> of a missing process throws; a start
  time that is missing makes the wait time \<^verbatim>\<open>NaN\<close>.
\<close>

definition terminateProcess :: "pid \<Rightarrow> Sim \<Rightarrow> outcome" where
  "terminateProcess k s =
     (case map_of (processes s) k of
        None \<Rightarrow> Threw UndefinedProperty s
      | Some p \<Rightarrow>
          let s1 = (if memBlock p \<noteq> None
                    then s\<lparr>memoryManager := freeAlloc k (memoryManager s)\<rparr> else s);
              waitTime = js_sub (Num (tickCount s1))
                (case map_of (processStartTimes s1) k of None \<Rightarrow> NaN | Some t \<Rightarrow> Num t);
              s2 = s1\<lparr>completedProcesses := completedProcesses s1 + 1,
                     totalWaitTime := js_add (totalWaitTime s1) waitTime,
                     processWaitTimes := AList.update k waitTime (processWaitTimes s1),
                     processes := AList.delete k (processes s1),
                     processStartTimes := AList.delete k (processStartTimes s1),
                     currentRunning := None\<rparr>
          in processMemoryQueue s2)"

section \<open>The tick\<close>

text \<open>
  The I/O loop of \<^verbatim>\<open>tick\<close>: \<open>tick_io_loop cfg (Suc i)\<close> is the round at index
  \<open>i\<close> followed by the rounds below it.
\<close>

fun tick_io_loop :: "Config \<Rightarrow> nat \<Rightarrow> Sim \<Rightarrow> Sim" where
  "tick_io_loop cfg 0 s = s"
| "tick_io_loop cfg (Suc i) s =
     tick_io_loop cfg i
       (case (if i < length (ioQueue s)
              then map_of (processes s) (ioQueue s ! i) else None) of
          None \<Rightarrow> s\<lparr>ioQueue := splice1 i (ioQueue s)\<rparr>
        | Some p \<Rightarrow>
            let k = ioQueue s ! i;
                p1 = p\<lparr>ioRemaining := ioRemaining p - 1\<rparr>
            in if ioRemaining p1 \<le> 0
               then s\<lparr>ioQueue := splice1 i (ioQueue s),
                      processes := AList.update k
                        (p1\<lparr>state := Listo, quantumLeft := TIME_QUANTUM cfg\<rparr>) (processes s),
                      readyQueue := readyQueue s @ [k]\<rparr>
               else s\<lparr>processes := AList.update k p1 (processes s)\<rparr>)"

text \<open>\<^verbatim>\<open>schedule()\<close>.\<close>

definition schedule :: "Config \<Rightarrow> Sim \<Rightarrow> outcome" where
  "schedule cfg s =
     (if currentRunning s = None \<and> length (readyQueue s) > 0
      then
        (let k = hd (readyQueue s);
             s1 = s\<lparr>readyQueue := tl (readyQueue s), currentRunning := Some k\<rparr>
         in case map_of (processes s1) k of
              None \<Rightarrow> Threw UndefinedProperty s1
            | Some p \<Rightarrow>
                Done (s1\<lparr>processes := AList.update k
                  (p\<lparr>state := Ejecutando, quantumLeft := TIME_QUANTUM cfg\<rparr>) (processes s1)\<rparr>))
      else
        (case currentRunning s of
           None \<Rightarrow> Done s
         | Some c \<Rightarrow>
             if length (readyQueue s) > 0 then Done s
             else
               (case map_of (processes s) c of
                  None \<Rightarrow> Threw UndefinedProperty s
                | Some p \<Rightarrow>
                    Done (s\<lparr>processes := AList.update c
                      (p\<lparr>quantumLeft := TIME_QUANTUM cfg\<rparr>) (processes s)\<rparr>))))"

text \<open>
  The block of \<^verbatim>\<open>tick\<close> under "Execute one tick for running process". The running
  process \<open>p\<close> is the object stored under \<^verbatim>\<open>currentRunning\<close>; the calls that end it
  take \<^verbatim>\<open>p.pid\<close>.
\<close>

definition tick_execute :: "Config \<Rightarrow> Draws \<Rightarrow> Sim \<Rightarrow> outcome" where
  "tick_execute cfg d s =
     (case currentRunning s of
        None \<Rightarrow> Done s
      | Some c \<Rightarrow>
          (case map_of (processes s) c of
             None \<Rightarrow> Done (s\<lparr>currentRunning := None\<rparr>)
           | Some p \<Rightarrow>
               (case io d of
                  Some dur \<Rightarrow>
                    Done (s\<lparr>processes := AList.update c
                               (p\<lparr>state := Bloqueado, ioRemaining := dur\<rparr>) (processes s),
                            ioQueue := ioQueue s @ [proc_pid p],
                            currentRunning := None\<rparr>)
                | None \<Rightarrow>
                    let p1 = p\<lparr>remainingCpu := js_sub (remainingCpu p) (Num 1),
                               quantumLeft := quantumLeft p - 1\<rparr>;
                        s1 = s\<lparr>processes := AList.update c p1 (processes s)\<rparr>
                    in if js_le (remainingCpu p1) 0
                       then
                         (let s2 = freeMemoryAndAwaken (proc_pid p) s1;
                              s3 = s2\<lparr>currentRunning := None\<rparr>
                          in terminateProcess (proc_pid p) s3)
                       else if quantumLeft p1 \<le> 0 \<and> length (readyQueue s1) > 0
                       then
                         Done (s1\<lparr>processes := AList.update c
                                    (p1\<lparr>state := Listo, quantumLeft := TIME_QUANTUM cfg\<rparr>)
                                    (processes s1),
                                  readyQueue := readyQueue s1 @ [proc_pid p],
                                  currentRunning := None\<rparr>)
                       else if length (readyQueue s1) = 0
                       then
                         Done (s1\<lparr>processes := AList.update c
                                    (p1\<lparr>quantumLeft := TIME_QUANTUM cfg\<rparr>) (processes s1)\<rparr>)
                       else Done s1)))"

text \<open>
  The last loop of \<^verbatim>\<open>tick\<close>, over \<^verbatim>\<open>waitingForMem\<close> from its last index down. An
  entry with no process is spliced out; for an entry with a process the loop calls
  \<^verbatim>\<open>memoryManager.alloc\<close>, which is not a function (see \<open>processMemoryQueue_loop\<close>).
\<close>

fun tick_memory_loop :: "nat \<Rightarrow> Sim \<Rightarrow> outcome" where
  "tick_memory_loop 0 s = Done s"
| "tick_memory_loop (Suc i) s =
     (case (if i < length (waitingForMem s)
            then map_of (processes s) (waitingForMem s ! i) else None) of
        None \<Rightarrow> tick_memory_loop i (s\<lparr>waitingForMem := splice1 i (waitingForMem s)\<rparr>)
      | Some p \<Rightarrow> Threw NotAFunction s)"

text \<open>
  \<^verbatim>\<open>tick()\<close>. \<^verbatim>\<open>log\<close> and \<^verbatim>\<open>updateGUI\<close> write to the page only and are left
  out.
\<close>

definition tick :: "Config \<Rightarrow> Draws \<Rightarrow> Sim \<Rightarrow> outcome" where
  "tick cfg d s =
     (let s1 = s\<lparr>tickCount := tickCount s + 1\<rparr>;
          s2 = maybeCreateRandomProcess cfg d s1;
          s3 = tick_io_loop cfg (length (ioQueue s2)) s2
      in and_then (schedule cfg s3) (\<lambda>s4.
         and_then (tick_execute cfg d s4) (\<lambda>s5.
         tick_memory_loop (length (waitingForMem s5)) s5)))"

text \<open>
  Ticks one after the other, as the timer or the step button calls them. An exception ends
  the tick it is thrown in and no more; the next tick starts from the state it left.
\<close>

fun run_ticks :: "Config \<Rightarrow> Draws list \<Rightarrow> Sim \<Rightarrow> Sim" where
  "run_ticks cfg [] s = s"
| "run_ticks cfg (d # ds) s = run_ticks cfg ds (state_of (tick cfg d s))"

section \<open>What the page can do\<close>






section \<open>Notions for the statements\<close>

text \<open>
  The addresses of a block, and two blocks that lie apart. For blocks of positive size
  lying apart is having no address in common.
\<close>

definition region :: "block \<Rightarrow> int set" where
  "region b = {fst b ..< fst b + snd b}"

definition sep :: "block \<Rightarrow> block \<Rightarrow> bool" where
  "sep a c = (fst a + snd a \<le> fst c \<or> fst c + snd c \<le> fst a)"

text \<open>
  A free list is in order when its blocks have positive sizes and each ends below the start
  of every later one, so that no two touch; \<open>free_wk\<close> lets them touch.
\<close>

definition free_ok :: "block list \<Rightarrow> bool" where
  "free_ok xs = ((\<forall>b \<in> set xs. 0 < snd b) \<and> sorted_wrt (\<lambda>a c. fst a + snd a < fst c) xs)"

definition free_wk :: "block list \<Rightarrow> bool" where
  "free_wk xs = ((\<forall>b \<in> set xs. 0 < snd b) \<and> sorted_wrt (\<lambda>a c. fst a + snd a \<le> fst c) xs)"

text \<open>
  The state of a manager is in order when its free list is, no pid has two entries, the
  allocated blocks have positive sizes, and every allocated block lies apart from every
  free block and from the blocks of the other pids.
\<close>

definition mm_inv :: "MemoryManager \<Rightarrow> bool" where
  "mm_inv m = (free_ok (free m) \<and> distinct (map fst (allocs m))
     \<and> (\<forall>x \<in> set (allocs m). 0 < snd (snd x) \<and> (\<forall>f \<in> set (free m). sep (snd x) f))
     \<and> (\<forall>x \<in> set (allocs m). \<forall>y \<in> set (allocs m). fst x \<noteq> fst y \<longrightarrow> sep (snd x) (snd y)))"

text \<open>
  The merge loop of \<^verbatim>\<open>freeAlloc\<close> read from the front of the sorted list
  (\<open>foldl_merge_step\<close> below shows that it is the same list).
\<close>

fun coalesce :: "block list \<Rightarrow> block list" where
  "coalesce [] = []"
| "coalesce [b] = [b]"
| "coalesce ((s1, z1) # (s2, z2) # r) =
     (if s1 + z1 = s2 then coalesce ((s1, z1 + z2) # r)
      else (s1, z1) # coalesce ((s2, z2) # r))"

text \<open>
  A sequence of calls in which every \<^verbatim>\<open>firstFitAllocate\<close> asks for a positive size
  for a pid that holds no block when the call is made; a call that asks for a positive
  size; a list of blocks no two of which share an address.
\<close>

fun fresh_calls :: "mm_call list \<Rightarrow> MemoryManager \<Rightarrow> bool" where
  "fresh_calls [] m = True"
| "fresh_calls (Allocate p n # cs) m =
     (0 < n \<and> map_of (allocs m) p = None \<and> fresh_calls cs (apply_call m (Allocate p n)))"
| "fresh_calls (Release p # cs) m = fresh_calls cs (apply_call m (Release p))"

fun positive_call :: "mm_call \<Rightarrow> bool" where
  "positive_call (Allocate p n) = (0 < n)"
| "positive_call (Release p) = True"

fun pairwise_disjoint :: "block list \<Rightarrow> bool" where
  "pairwise_disjoint [] = True"
| "pairwise_disjoint (b # bs) = ((\<forall>c \<in> set bs. region b \<inter> region c = {}) \<and> pairwise_disjoint bs)"



text \<open>
  The draws of the ticks used below: a new process of 300 KB and 15 ticks, no draw at all,
  a new process of 20 KB and 10 ticks, and a block for I/O of 2 ticks. Then the states
  after three and after five spawning ticks from the initial state, the state after one
  such tick under a quantum of 1, and the state 33 quiet ticks after \<open>five_spawned\<close>.
\<close>

definition spawn300 :: Draws where
  "spawn300 = \<lparr>spawn = Some (300, 15), io = None\<rparr>"

definition quiet :: Draws where
  "quiet = \<lparr>spawn = None, io = None\<rparr>"

definition small :: Draws where
  "small = \<lparr>spawn = Some (20, 10), io = None\<rparr>"

definition block2 :: Draws where
  "block2 = \<lparr>spawn = None, io = Some 2\<rparr>"

definition three_spawned :: Sim where
  "three_spawned = run_ticks CONFIG [spawn300, spawn300, spawn300] (initial CONFIG)"

definition five_spawned :: Sim where
  "five_spawned =
     run_ticks CONFIG [spawn300, spawn300, spawn300, spawn300, spawn300] (initial CONFIG)"

definition alone_quantum1 :: Sim where
  "alone_quantum1 =
     run_ticks (CONFIG\<lparr>TIME_QUANTUM := 1\<rparr>) [spawn300] (initial (CONFIG\<lparr>TIME_QUANTUM := 1\<rparr>))"

definition before_termination :: Sim where
  "before_termination = run_ticks CONFIG (replicate 33 quiet) five_spawned"

section \<open>First fit\<close>



lemma first_fit_SomeD:
  assumes "first_fit n xs = Some (b, fr)"
  shows "\<exists>pre start sz post. xs = pre @ (start, sz) # post \<and> (\<forall>c \<in> set pre. snd c < n)
    \<and> n \<le> sz \<and> b = (start, n)
    \<and> fr = pre @ (if sz = n then post else (start + n, sz - n) # post)"
  using assms
proof (induction xs arbitrary: fr)
  case Nil
  then show ?case by simp
next
  case (Cons x xs)
  obtain s z where x: "x = (s, z)" by (cases x)
  show ?case
  proof (cases "n \<le> z")
    case True
    with Cons.prems x have "b = (s, n)" "fr = (if z = n then xs else (s + n, z - n) # xs)"
      by auto
    with True x show ?thesis
      by (intro exI [of _ "[]"] exI [of _ s] exI [of _ z] exI [of _ xs]) simp
  next
    case False
    with Cons.prems x obtain fr' where
      r: "first_fit n xs = Some (b, fr')" and fr: "fr = (s, z) # fr'"
      by auto
    from Cons.IH [OF r] obtain pre start sz post where
      d: "xs = pre @ (start, sz) # post" "\<forall>c \<in> set pre. snd c < n" "n \<le> sz" "b = (start, n)"
         "fr' = pre @ (if sz = n then post else (start + n, sz - n) # post)"
      by blast
    with False x fr show ?thesis
      by (intro exI [of _ "(s, z) # pre"] exI [of _ start] exI [of _ sz] exI [of _ post]) auto
  qed
qed

lemma freeSpace_sum: "freeSpace m = sum_list (map snd (free m))"
proof -
  have "foldl (\<lambda>t b. case b of (_, sz) \<Rightarrow> t + sz) a xs = a + sum_list (map snd xs)"
    for a :: int and xs :: "block list"
    by (induction xs arbitrary: a) (auto split: prod.splits)
  then show ?thesis by (simp add: freeSpace_def)
qed

section \<open>The merge loop\<close>

lemma merge_step_Nil: "merge_step [] b = [b]"
  by (cases b) (simp add: merge_step_def)

lemma merge_step_snoc:
  "merge_step (acc @ [(ls, lz)]) (s, z) =
     (if ls + lz = s then acc @ [(ls, lz + z)] else acc @ [(ls, lz), (s, z)])"
  by (simp add: merge_step_def nth_append)

lemma foldl_merge_step_snoc:
  "foldl merge_step (acc @ [b]) xs = acc @ coalesce (b # xs)"
proof (induction xs arbitrary: acc b)
  case Nil
  then show ?case by simp
next
  case (Cons x xs)
  obtain ls lz where b: "b = (ls, lz)" by (cases b)
  obtain s z where x: "x = (s, z)" by (cases x)
  show ?case
  proof (cases "ls + lz = s")
    case True
    then show ?thesis using Cons.IH [of acc "(ls, lz + z)"] b x
      by (simp add: merge_step_snoc)
  next
    case False
    then show ?thesis using Cons.IH [of "acc @ [(ls, lz)]" "(s, z)"] b x
      by (simp add: merge_step_snoc)
  qed
qed

lemma foldl_merge_step: "foldl merge_step [] xs = coalesce xs"
proof (cases xs)
  case Nil
  then show ?thesis by simp
next
  case (Cons x xs')
  then show ?thesis using foldl_merge_step_snoc [of "[]" x xs']
    by (simp add: merge_step_Nil)
qed

lemma coalesce_sum: "sum_list (map snd (coalesce xs)) = sum_list (map snd xs)"
  by (induction xs rule: coalesce.induct) auto

lemma coalesce_starts: "fst ` set (coalesce xs) \<subseteq> fst ` set xs"
  by (induction xs rule: coalesce.induct) auto

lemma coalesce_free_ok: "free_wk xs \<Longrightarrow> free_ok (coalesce xs)"
proof (induction xs rule: coalesce.induct)
  case 1
  then show ?case by (simp add: free_ok_def)
next
  case (2 b)
  then show ?case by (simp add: free_ok_def free_wk_def)
next
  case (3 s1 z1 s2 z2 r)
  show ?case
  proof (cases "s1 + z1 = s2")
    case True
    from "3.prems" True have "free_wk ((s1, z1 + z2) # r)"
      by (auto simp: free_wk_def)
    with "3.IH"(1) True show ?thesis by simp
  next
    case False
    from "3.prems" have wk: "free_wk ((s2, z2) # r)"
      by (auto simp: free_wk_def)
    with "3.IH"(2) False have ok: "free_ok (coalesce ((s2, z2) # r))" by simp
    have "s1 + z1 < fst y" if "y \<in> set (coalesce ((s2, z2) # r))" for y
    proof -
      from that have "fst y \<in> fst ` set (coalesce ((s2, z2) # r))" by (rule imageI)
      with coalesce_starts [of "(s2, z2) # r"] have "fst y \<in> fst ` set ((s2, z2) # r)"
        by blast
      then obtain x where
        x: "x \<in> set ((s2, z2) # r)" "fst y = fst x" by (elim imageE)
      from "3.prems" False x show ?thesis by (auto simp: free_wk_def)
    qed
    with ok "3.prems" False show ?thesis by (auto simp: free_ok_def free_wk_def)
  qed
qed

lemma sep_sym: "sep a c = sep c a"
  by (auto simp: sep_def)

lemma coalesce_sep:
  "free_wk xs \<Longrightarrow> 0 < snd a \<Longrightarrow> \<forall>x \<in> set xs. sep a x \<Longrightarrow> \<forall>y \<in> set (coalesce xs). sep a y"
proof (induction xs rule: coalesce.induct)
  case 1
  then show ?case by simp
next
  case (2 b)
  then show ?case by simp
next
  case (3 s1 z1 s2 z2 r)
  show ?case
  proof (cases "s1 + z1 = s2")
    case True
    from "3.prems" True have wk: "free_wk ((s1, z1 + z2) # r)"
      by (auto simp: free_wk_def)
    from "3.prems" True have "\<forall>x \<in> set ((s1, z1 + z2) # r). sep a x"
      by (auto simp: sep_def free_wk_def)
    with "3.IH"(1) [OF True wk "3.prems"(2)] True show ?thesis by simp
  next
    case False
    from "3.prems" have wk: "free_wk ((s2, z2) # r)"
      by (auto simp: free_wk_def)
    from "3.IH"(2) [OF False wk "3.prems"(2)] "3.prems"(3) False show ?thesis by simp
  qed
qed

section \<open>Free lists in order\<close>

lemma free_ok_starts: "free_ok xs \<Longrightarrow> sorted_wrt (\<lambda>a c. fst a < fst c) xs"
  unfolding free_ok_def
  by (induction xs) auto

lemma free_ok_gap:
  "free_ok xs \<Longrightarrow> u \<in> set xs \<Longrightarrow> v \<in> set xs \<Longrightarrow> u \<noteq> v \<Longrightarrow>
   fst u + snd u < fst v \<or> fst v + snd v < fst u"
proof (induction xs)
  case Nil
  then show ?case by simp
next
  case (Cons x xs)
  from Cons.prems(1) have ok: "free_ok xs" and hd: "\<forall>y \<in> set xs. fst x + snd x < fst y"
    by (auto simp: free_ok_def)
  consider "u = x" "v \<in> set xs" | "v = x" "u \<in> set xs" | "u \<in> set xs" "v \<in> set xs"
    using Cons.prems by auto
  then show ?case
  proof cases
    case 1
    with hd show ?thesis by auto
  next
    case 2
    with hd show ?thesis by auto
  next
    case 3
    with Cons.IH ok Cons.prems(4) show ?thesis by blast
  qed
qed

lemma free_ok_sep:
  "free_ok xs \<Longrightarrow> u \<in> set xs \<Longrightarrow> v \<in> set xs \<Longrightarrow> u \<noteq> v \<Longrightarrow> sep u v"
  using free_ok_gap [of xs u v] by (auto simp: sep_def)

lemma sort_free_wk:
  assumes ok: "free_ok fr" and pos: "0 < snd b" and sp: "\<forall>f \<in> set fr. sep b f"
  shows "free_wk (sort_key fst (fr @ [b]))"
proof -
  let ?ys = "sort_key fst (fr @ [b])"
  have set_ys: "set ?ys = insert b (set fr)" by simp
  have posall: "\<forall>x \<in> set ?ys. 0 < snd x"
    using ok pos by (auto simp: free_ok_def)
  have nb: "fst f \<noteq> fst b" if "f \<in> set fr" for f
  proof -
    from that sp have "sep b f" by blast
    moreover from that ok have "0 < snd f" by (simp add: free_ok_def)
    ultimately show ?thesis using pos by (auto simp: sep_def)
  qed
  from free_ok_starts [OF ok] have "sorted_wrt (<) (map fst fr)"
    by (simp add: sorted_wrt_map)
  then have "distinct (map fst fr)" by (simp add: strict_sorted_iff)
  moreover from nb have "fst b \<notin> set (map fst fr)" by fastforce
  ultimately have dm: "distinct (map fst (fr @ [b]))" by simp
  then have "distinct (fr @ [b])" "inj_on fst (set (fr @ [b]))"
    by (simp_all only: distinct_map)
  then have "distinct ?ys" "inj_on fst (set ?ys)" by simp_all
  then have "distinct (map fst ?ys)" by (simp only: distinct_map)
  moreover have "sorted (map fst ?ys)" by (rule sorted_sort_key)
  ultimately have "sorted_wrt (<) (map fst ?ys)" by (simp add: strict_sorted_iff)
  then have st: "sorted_wrt (\<lambda>a c. fst a < fst c) ?ys" by (simp add: sorted_wrt_map)
  have pair: "sep x y" if "x \<in> set ?ys" "y \<in> set ?ys" "fst x < fst y" for x y
  proof -
    note ff = free_ok_sep [OF ok]
    from that have "x \<noteq> y" by auto
    with that(1,2) set_ys consider "x = b" "y \<in> set fr" | "y = b" "x \<in> set fr"
      | "x \<in> set fr" "y \<in> set fr" by auto
    then show ?thesis
    proof cases
      case 1
      with sp show ?thesis by blast
    next
      case 2
      with sp have "sep b x" by blast
      with 2 show ?thesis by (simp add: sep_def disj_commute)
    next
      case 3
      with ff \<open>x \<noteq> y\<close> show ?thesis by blast
    qed
  qed
  have "sorted_wrt (\<lambda>a c. fst a + snd a \<le> fst c) ?ys"
  proof (rule sorted_wrt_mono_rel [OF _ st])
    fix x y assume xy: "x \<in> set ?ys" "y \<in> set ?ys" "fst x < fst y"
    from pair [OF xy] posall xy show "fst x + snd x \<le> fst y" by (auto simp: sep_def)
  qed
  with posall show ?thesis by (simp add: free_wk_def)
qed

lemma first_fit_free_ok:
  assumes "first_fit n xs = Some (b, fr)" "free_ok xs" "0 < n"
  shows "free_ok fr"
proof -
  from first_fit_SomeD [OF assms(1)] obtain pre start sz post where
    d: "xs = pre @ (start, sz) # post" "n \<le> sz" "b = (start, n)"
       "fr = pre @ (if sz = n then post else (start + n, sz - n) # post)"
    by blast
  with assms(2,3) show ?thesis
    by (auto simp: free_ok_def sorted_wrt_append)
qed

lemma first_fit_sum:
  assumes "first_fit n xs = Some (b, fr)"
  shows "sum_list (map snd fr) + n = sum_list (map snd xs)" "snd b = n"
proof -
  from first_fit_SomeD [OF assms(1)] obtain pre start sz post where
    d: "xs = pre @ (start, sz) # post" "n \<le> sz" "b = (start, n)"
       "fr = pre @ (if sz = n then post else (start + n, sz - n) # post)"
    by blast
  then show "sum_list (map snd fr) + n = sum_list (map snd xs)" "snd b = n" by auto
qed

lemma first_fit_sep:
  assumes "first_fit n xs = Some (b, fr)" "free_ok xs" "0 < n"
  shows "\<forall>f \<in> set fr. sep b f"
    and "\<forall>a. (\<forall>x \<in> set xs. sep a x) \<longrightarrow> sep a b \<and> (\<forall>f \<in> set fr. sep a f)"
proof -
  from first_fit_SomeD [OF assms(1)] obtain pre start sz post where
    d: "xs = pre @ (start, sz) # post" "n \<le> sz" "b = (start, n)"
       "fr = pre @ (if sz = n then post else (start + n, sz - n) # post)"
    by blast
  with assms(2,3) show "\<forall>f \<in> set fr. sep b f"
    by (auto simp: free_ok_def sorted_wrt_append sep_def)
  from d assms(3) show "\<forall>a. (\<forall>x \<in> set xs. sep a x) \<longrightarrow> sep a b \<and> (\<forall>f \<in> set fr. sep a f)"
    by (auto simp: sep_def split: if_splits)
qed

section \<open>Association lists\<close>

lemma update_fresh: "map_of al k = None \<Longrightarrow> AList.update k v al = al @ [(k, v)]"
  by (induction al) (auto split: if_splits)

lemma set_update_distinct:
  "distinct (map fst al) \<Longrightarrow> x \<in> set (AList.update k v al) \<Longrightarrow>
   x = (k, v) \<or> (x \<in> set al \<and> fst x \<noteq> k)"
  by (induction al) (auto split: if_splits)

lemma set_delete: "x \<in> set (AList.delete k al) \<longleftrightarrow> x \<in> set al \<and> fst x \<noteq> k"
  by (auto simp: AList.delete_eq)

lemma sum_delete:
  "distinct (map fst al) \<Longrightarrow> map_of al k = Some b \<Longrightarrow>
   sum_list (map (\<lambda>e. snd (snd e)) (AList.delete k al)) + snd b
     = sum_list (map (\<lambda>e. snd (snd e)) (al :: (pid \<times> block) list))"
proof (induction al)
  case Nil
  then show ?case by simp
next
  case (Cons x al)
  show ?case
  proof (cases "fst x = k")
    case True
    with Cons.prems have "x = (k, b)" by (cases x) auto
    moreover from True Cons.prems have "k \<notin> fst ` set al" by auto
    ultimately show ?thesis by simp
  next
    case False
    with Cons show ?thesis by (cases x) auto
  qed
qed

lemma sum_sort_key: "sum_list (map snd (sort_key fst xs)) = sum_list (map snd (xs :: block list))"
proof -
  have "mset (map snd (sort_key fst xs)) = mset (map snd xs)" by simp
  then show ?thesis by (metis sum_mset_sum_list)
qed

section \<open>The manager stays in order\<close>

lemma mm_inv_new: "0 < tot \<Longrightarrow> mm_inv (new_MemoryManager tot)"
  by (simp add: mm_inv_def new_MemoryManager_def free_ok_def)

lemma mm_inv_firstFitAllocate:
  assumes inv: "mm_inv m" and n: "0 < n"
  shows "mm_inv (snd (firstFitAllocate p (Num n) m))"
proof (cases "first_fit n (free m)")
  case None
  with inv show ?thesis by (simp add: firstFitAllocate_def)
next
  case (Some r)
  obtain b fr where r: "r = (b, fr)" by (cases r)
  with Some have ff: "first_fit n (free m) = Some (b, fr)" by simp
  from inv have ok: "free_ok (free m)" by (simp add: mm_inv_def)
  let ?al = "AList.update p b (allocs m)"
  have m': "snd (firstFitAllocate p (Num n) m) = m\<lparr>free := fr, allocs := ?al\<rparr>"
    using ff by (simp add: firstFitAllocate_def)
  note s1 = first_fit_sep(1) [OF ff ok n]
  note s2 = first_fit_sep(2) [OF ff ok n, rule_format]
  have bn: "snd b = n" using first_fit_sum(2) [OF ff] .
  have old: "0 < snd (snd x) \<and> (\<forall>f \<in> set (free m). sep (snd x) f)" if "x \<in> set (allocs m)" for x
    using inv that by (simp add: mm_inv_def)
  have a: "free_ok fr" by (rule first_fit_free_ok [OF ff ok n])
  have b: "distinct (map fst ?al)" using inv by (simp add: mm_inv_def distinct_update)
  from inv have dk: "distinct (map fst (allocs m))" by (simp add: mm_inv_def)
  have c: "0 < snd (snd x) \<and> (\<forall>f \<in> set fr. sep (snd x) f)" if "x \<in> set ?al" for x
  proof -
    from set_update_distinct [OF dk that] consider "x = (p, b)" | "x \<in> set (allocs m)" by blast
    then show ?thesis
    proof cases
      case 1
      with s1 bn n show ?thesis by simp
    next
      case 2
      from old [OF 2] s2 [of "snd x"] show ?thesis by blast
    qed
  qed
  have d: "sep (snd x) (snd y)" if "x \<in> set ?al" "y \<in> set ?al" "fst x \<noteq> fst y" for x y
  proof -
    from set_update_distinct [OF dk that(1)] set_update_distinct [OF dk that(2)] that(3)
    consider "x = (p, b)" "y \<in> set (allocs m)" | "y = (p, b)" "x \<in> set (allocs m)"
      | "x \<in> set (allocs m)" "y \<in> set (allocs m)" by auto
    then show ?thesis
    proof cases
      case 1
      from old [OF 1(2)] s2 [of "snd y"] have "sep (snd y) b" by blast
      with 1 show ?thesis by (simp add: sep_sym)
    next
      case 2
      from old [OF 2(2)] s2 [of "snd x"] have "sep (snd x) b" by blast
      with 2 show ?thesis by simp
    next
      case 3
      with inv that(3) show ?thesis by (simp add: mm_inv_def)
    qed
  qed
  from a b c d show ?thesis unfolding m' mm_inv_def by simp
qed

lemma mm_inv_freeAlloc:
  assumes inv: "mm_inv m"
  shows "mm_inv (freeAlloc p m)"
proof (cases "map_of (allocs m) p")
  case None
  with inv show ?thesis by (simp add: freeAlloc_def)
next
  case (Some freed)
  then have mem: "(p, freed) \<in> set (allocs m)" by (rule map_of_SomeD)
  let ?ys = "sort_key fst (free m @ [freed])"
  let ?al = "AList.delete p (allocs m)"
  have m': "freeAlloc p m = m\<lparr>allocs := ?al, free := coalesce ?ys\<rparr>"
    using Some by (simp add: freeAlloc_def foldl_merge_step)
  from inv have ok: "free_ok (free m)" by (simp add: mm_inv_def)
  from inv mem have pos: "0 < snd freed" and sp: "\<forall>f \<in> set (free m). sep freed f"
    by (auto simp: mm_inv_def)
  have wk: "free_wk ?ys" by (rule sort_free_wk [OF ok pos sp])
  have a: "free_ok (coalesce ?ys)" by (rule coalesce_free_ok [OF wk])
  have b: "distinct (map fst ?al)" using inv by (simp add: mm_inv_def distinct_delete)
  have c: "0 < snd (snd x) \<and> (\<forall>f \<in> set (coalesce ?ys). sep (snd x) f)" if "x \<in> set ?al" for x
  proof -
    from that have x: "x \<in> set (allocs m)" "fst x \<noteq> p" by (simp_all add: set_delete)
    with inv have px: "0 < snd (snd x)" and fx: "\<forall>f \<in> set (free m). sep (snd x) f"
      by (simp_all add: mm_inv_def)
    from inv x mem have "sep (snd x) freed" by (fastforce simp: mm_inv_def)
    with fx have "\<forall>z \<in> set ?ys. sep (snd x) z" by simp
    from coalesce_sep [OF wk px this] px show ?thesis by simp
  qed
  have d: "sep (snd x) (snd y)" if "x \<in> set ?al" "y \<in> set ?al" "fst x \<noteq> fst y" for x y
    using that inv by (simp add: set_delete mm_inv_def)
  from a b c d show ?thesis unfolding m' mm_inv_def by simp
qed

lemma conserve_firstFitAllocate:
  assumes "map_of (allocs m) p = None"
  shows "freeSpace (snd (firstFitAllocate p (Num n) m)) + usedSpace (snd (firstFitAllocate p (Num n) m))
    = freeSpace m + usedSpace m"
proof (cases "first_fit n (free m)")
  case None
  then show ?thesis by (simp add: firstFitAllocate_def)
next
  case (Some r)
  obtain b fr where r: "r = (b, fr)" by (cases r)
  with Some have ff: "first_fit n (free m) = Some (b, fr)" by simp
  from first_fit_sum [OF ff] assms ff show ?thesis
    by (simp add: firstFitAllocate_def freeSpace_sum usedSpace_def update_fresh)
qed

lemma conserve_freeAlloc:
  assumes "distinct (map fst (allocs m))"
  shows "freeSpace (freeAlloc p m) + usedSpace (freeAlloc p m) = freeSpace m + usedSpace m"
proof (cases "map_of (allocs m) p")
  case None
  then show ?thesis by (simp add: freeAlloc_def)
next
  case (Some freed)
  from sum_delete [OF assms Some] Some show ?thesis
    by (simp add: freeAlloc_def freeSpace_sum usedSpace_def foldl_merge_step coalesce_sum
        sum_sort_key)
qed

lemma sep_region: "sep a c \<Longrightarrow> region a \<inter> region c = {}"
  by (auto simp: sep_def region_def)

lemma pairwise_disjoint_append:
  "pairwise_disjoint (xs @ ys) \<longleftrightarrow>
     pairwise_disjoint xs \<and> pairwise_disjoint ys
     \<and> (\<forall>a \<in> set xs. \<forall>c \<in> set ys. region a \<inter> region c = {})"
  by (induction xs) auto

lemma free_ok_disjoint: "free_ok xs \<Longrightarrow> pairwise_disjoint xs"
proof (induction xs)
  case Nil
  then show ?case by simp
next
  case (Cons x xs)
  from Cons.prems have "free_ok xs" by (simp add: free_ok_def)
  moreover have "region x \<inter> region c = {}" if "c \<in> set xs" for c
  proof -
    from Cons.prems that have "sep x c" by (auto simp: free_ok_def sep_def)
    then show ?thesis by (rule sep_region)
  qed
  ultimately show ?case using Cons.IH by simp
qed

lemma allocs_disjoint:
  "distinct (map fst al) \<Longrightarrow>
   \<forall>x \<in> set al. \<forall>y \<in> set al. fst x \<noteq> fst y \<longrightarrow> sep (snd x) (snd y) \<Longrightarrow>
   pairwise_disjoint (map snd al)"
proof (induction al)
  case Nil
  then show ?case by simp
next
  case (Cons x al)
  have "region (snd x) \<inter> region c = {}" if "c \<in> set (map snd al)" for c
  proof -
    from that obtain y where y: "y \<in> set al" "c = snd y" by auto
    with Cons.prems(1) have "fst x \<noteq> fst y" by auto
    with Cons.prems(2) y have "sep (snd x) c" by simp
    then show ?thesis by (rule sep_region)
  qed
  with Cons show ?case by simp
qed

lemma mm_inv_disjoint:
  assumes "mm_inv m"
  shows "pairwise_disjoint (free m @ map snd (allocs m))"
proof -
  from assms have "pairwise_disjoint (free m)" by (simp add: mm_inv_def free_ok_disjoint)
  moreover from assms have "pairwise_disjoint (map snd (allocs m))"
    by (simp add: mm_inv_def allocs_disjoint)
  moreover have "region f \<inter> region c = {}" if "f \<in> set (free m)" "c \<in> set (map snd (allocs m))" for f c
  proof -
    from that(2) obtain x where "x \<in> set (allocs m)" "c = snd x" by auto
    with assms that(1) have "sep c f" by (simp add: mm_inv_def)
    then have "sep f c" by (simp add: sep_sym)
    then show ?thesis by (rule sep_region)
  qed
  ultimately show ?thesis by (simp add: pairwise_disjoint_append)
qed

lemma run_calls_Cons: "run_calls (c # cs) m = run_calls cs (apply_call m c)"
  by (simp add: run_calls_def)

lemma fresh_calls_inv:
  "fresh_calls cs m \<Longrightarrow> mm_inv m \<Longrightarrow>
   mm_inv (run_calls cs m) \<and>
   freeSpace (run_calls cs m) + usedSpace (run_calls cs m) = freeSpace m + usedSpace m"
proof (induction cs arbitrary: m)
  case Nil
  then show ?case by (simp add: run_calls_def)
next
  case (Cons c cs)
  show ?case
  proof (cases c)
    case (Allocate p n)
    with Cons.prems have n: "0 < n" and fresh: "map_of (allocs m) p = None"
      and rest: "fresh_calls cs (apply_call m c)" by simp_all
    have inv': "mm_inv (apply_call m c)"
      using Allocate mm_inv_firstFitAllocate [OF Cons.prems(2) n] by simp
    have "freeSpace (apply_call m c) + usedSpace (apply_call m c) = freeSpace m + usedSpace m"
      using Allocate conserve_firstFitAllocate [OF fresh] by simp
    with Cons.IH [OF rest inv'] show ?thesis by (simp add: run_calls_Cons)
  next
    case (Release p)
    with Cons.prems have rest: "fresh_calls cs (apply_call m c)" by simp
    have inv': "mm_inv (apply_call m c)"
      using Release mm_inv_freeAlloc [OF Cons.prems(2)] by simp
    from Cons.prems(2) have "distinct (map fst (allocs m))" by (simp add: mm_inv_def)
    from conserve_freeAlloc [OF this] Release
    have "freeSpace (apply_call m c) + usedSpace (apply_call m c) = freeSpace m + usedSpace m"
      by simp
    with Cons.IH [OF rest inv'] show ?thesis by (simp add: run_calls_Cons)
  qed
qed

lemma fresh_calls_take: "fresh_calls cs m \<Longrightarrow> fresh_calls (take k cs) m"
proof (induction cs arbitrary: m k)
  case Nil
  then show ?case by simp
next
  case (Cons c cs)
  then show ?case by (cases k; cases c) auto
qed

lemma positive_calls_inv:
  "list_all positive_call cs \<Longrightarrow> mm_inv m \<Longrightarrow> mm_inv (run_calls cs m)"
proof (induction cs arbitrary: m)
  case Nil
  then show ?case by (simp add: run_calls_def)
next
  case (Cons c cs)
  have "mm_inv (apply_call m c)"
  proof (cases c)
    case (Allocate p n)
    with Cons.prems show ?thesis using mm_inv_firstFitAllocate [of m n p] by simp
  next
    case (Release p)
    with Cons.prems show ?thesis using mm_inv_freeAlloc [of m p] by simp
  qed
  with Cons show ?case by (simp add: run_calls_Cons)
qed

section \<open>The states of the examples\<close>

lemma three_spawned_eq:
  "three_spawned =
     \<lparr>PID_COUNTER = 4, tickCount = 3, completedProcesses = 0,
      totalWaitTime = Num 0, contextSwitches = 0, totalProcessesCreated = 3,
      processStartTimes = [(1, 1), (2, 2), (3, 3)], processWaitTimes = [],
      processes =
        [(1, \<lparr>proc_pid = 1, memReq = Num 300, totalCpu = Num 15, remainingCpu = Num 12,
               state = Ejecutando, memBlock = Some (0, 300), quantumLeft = 1, ioRemaining = 0\<rparr>),
         (2, \<lparr>proc_pid = 2, memReq = Num 300, totalCpu = Num 15, remainingCpu = Num 15,
               state = Listo, memBlock = Some (300, 300), quantumLeft = 3, ioRemaining = 0\<rparr>),
         (3, \<lparr>proc_pid = 3, memReq = Num 300, totalCpu = Num 15, remainingCpu = Num 15,
               state = Listo, memBlock = Some (600, 300), quantumLeft = 3, ioRemaining = 0\<rparr>)],
      readyQueue = [2, 3], ioQueue = [], waitingForMem = [], currentRunning = Some 1,
      memoryManager =
        \<lparr>total_mem = 1024, free = [(900, 124)],
         allocs = [(1, 0, 300), (2, 300, 300), (3, 600, 300)]\<rparr>\<rparr>"
  unfolding three_spawned_def by code_simp

lemma five_spawned_eq:
  "five_spawned =
     \<lparr>PID_COUNTER = 6, tickCount = 5, completedProcesses = 0,
      totalWaitTime = Num 0, contextSwitches = 0, totalProcessesCreated = 5,
      processStartTimes = [(1, 1), (2, 2), (3, 3), (4, 4), (5, 5)], processWaitTimes = [],
      processes =
        [(1, \<lparr>proc_pid = 1, memReq = Num 300, totalCpu = Num 15, remainingCpu = Num 11,
               state = Listo, memBlock = Some (0, 300), quantumLeft = 3, ioRemaining = 0\<rparr>),
         (2, \<lparr>proc_pid = 2, memReq = Num 300, totalCpu = Num 15, remainingCpu = Num 14,
               state = Ejecutando, memBlock = Some (300, 300), quantumLeft = 2, ioRemaining = 0\<rparr>),
         (3, \<lparr>proc_pid = 3, memReq = Num 300, totalCpu = Num 15, remainingCpu = Num 15,
               state = Listo, memBlock = Some (600, 300), quantumLeft = 3, ioRemaining = 0\<rparr>),
         (4, \<lparr>proc_pid = 4, memReq = Num 300, totalCpu = Num 15, remainingCpu = Num 15,
               state = EsperandoMem, memBlock = None, quantumLeft = 3, ioRemaining = 0\<rparr>),
         (5, \<lparr>proc_pid = 5, memReq = Num 300, totalCpu = Num 15, remainingCpu = Num 15,
               state = EsperandoMem, memBlock = None, quantumLeft = 3, ioRemaining = 0\<rparr>)],
      readyQueue = [3, 1], ioQueue = [], waitingForMem = [4, 5], currentRunning = Some 2,
      memoryManager =
        \<lparr>total_mem = 1024, free = [(900, 124)],
         allocs = [(1, 0, 300), (2, 300, 300), (3, 600, 300)]\<rparr>\<rparr>"
  unfolding five_spawned_def by code_simp

lemma alone_quantum1_eq:
  "alone_quantum1 =
     \<lparr>PID_COUNTER = 2, tickCount = 1, completedProcesses = 0,
      totalWaitTime = Num 0, contextSwitches = 0, totalProcessesCreated = 1,
      processStartTimes = [(1, 1)], processWaitTimes = [],
      processes =
        [(1, \<lparr>proc_pid = 1, memReq = Num 300, totalCpu = Num 15, remainingCpu = Num 14,
               state = Ejecutando, memBlock = Some (0, 300), quantumLeft = 1, ioRemaining = 0\<rparr>)],
      readyQueue = [], ioQueue = [], waitingForMem = [], currentRunning = Some 1,
      memoryManager = \<lparr>total_mem = 1024, free = [(300, 724)], allocs = [(1, 0, 300)]\<rparr>\<rparr>"
  unfolding alone_quantum1_def by code_simp

section \<open>The retry loops\<close>

lemma splice1_nth_below: "j < i \<Longrightarrow> splice1 i xs ! j = xs ! j"
  by (cases "i \<le> length xs") (simp_all add: splice1_def nth_append)

lemma splice1_length: "i \<le> length xs \<Longrightarrow> i \<le> length (splice1 i xs)"
  by (simp add: splice1_def)

lemma tick_memory_loop_throws:
  "i \<le> length (waitingForMem s) \<Longrightarrow>
   \<exists>j < i. map_of (processes s) (waitingForMem s ! j) \<noteq> None \<Longrightarrow>
   \<exists>s'. tick_memory_loop i s = Threw NotAFunction s'"
proof (induction i arbitrary: s)
  case 0
  then show ?case by simp
next
  case (Suc i)
  show ?case
  proof (cases "map_of (processes s) (waitingForMem s ! i)")
    case (Some p)
    with Suc.prems(1) show ?thesis by simp
  next
    case None
    let ?s' = "s\<lparr>waitingForMem := splice1 i (waitingForMem s)\<rparr>"
    from Suc.prems(2) None obtain j where j: "j < i" "map_of (processes s) (waitingForMem s ! j) \<noteq> None"
      by (metis less_Suc_eq)
    then have "\<exists>j < i. map_of (processes ?s') (waitingForMem ?s' ! j) \<noteq> None"
      by (auto simp: splice1_nth_below)
    moreover from Suc.prems(1) have "i \<le> length (waitingForMem ?s')"
      by (simp add: splice1_length)
    ultimately have "\<exists>s'. tick_memory_loop i ?s' = Threw NotAFunction s'" by (rule Suc.IH [rotated])
    with None Suc.prems(1) show ?thesis by simp
  qed
qed



lemma awaken_loop_keeps_unallocated:
  "map_of (allocs (memoryManager s)) k = None \<Longrightarrow>
   \<forall>w \<in> set ws. \<forall>q. map_of (processes s) w = Some q \<longrightarrow> proc_pid q \<noteq> k \<Longrightarrow>
   map_of (allocs (memoryManager (awaken_loop ws s))) k = None"
proof (induction ws arbitrary: s)
  case Nil
  then show ?case by simp
next
  case (Cons wpid ws)
  show ?case
  proof (cases "map_of (processes s) wpid")
    case None
    with Cons.IH [of "s\<lparr>waitingForMem := remove1 wpid (waitingForMem s)\<rparr>"] Cons.prems
    show ?thesis by simp
  next
    case (Some p)
    with Cons.prems(2) have pk: "proc_pid p \<noteq> k" by simp
    obtain r m' where ff: "firstFitAllocate (proc_pid p) (memReq p) (memoryManager s) = (r, m')"
      by (cases "firstFitAllocate (proc_pid p) (memReq p) (memoryManager s)")
    have m'k: "map_of (allocs m') k = None"
      using ff pk Cons.prems(1)
      by (auto simp: firstFitAllocate_def update_conv' split: jsnum.splits option.splits prod.splits)
    show ?thesis
    proof (cases r)
      case None
      with Some ff m'k show ?thesis by simp
    next
      case (Some alloc)
      let ?s' = "s\<lparr>memoryManager := m',
                    processes := AList.update wpid
                      (p\<lparr>memBlock := Some alloc, state := Listo\<rparr>) (processes s),
                    waitingForMem := remove1 wpid (waitingForMem s),
                    readyQueue := readyQueue s @ [wpid]\<rparr>"
      have "\<forall>w \<in> set ws. \<forall>q. map_of (processes ?s') w = Some q \<longrightarrow> proc_pid q \<noteq> k"
        using Cons.prems(2) pk by (auto simp: update_conv' split: if_splits)
      with Cons.IH [of ?s'] m'k have "map_of (allocs (memoryManager (awaken_loop ws ?s'))) k = None"
        by simp
      with \<open>map_of (processes s) wpid = Some p\<close> ff Some show ?thesis by simp
    qed
  qed
qed

lemma freeAlloc_removes: "map_of (allocs (freeAlloc k m)) k = None"
  by (simp add: freeAlloc_def delete_conv' split: option.splits)



section \<open>No step of the tick counts context switches\<close>

lemma cs_tick_memory_loop: "contextSwitches (state_of (tick_memory_loop i s)) = contextSwitches s"
  by (induction i arbitrary: s) (auto split: option.splits)

lemma cs_tick_io_loop: "contextSwitches (tick_io_loop cfg i s) = contextSwitches s"
  by (induction i arbitrary: s) (auto simp: Let_def split: option.splits)

lemma cs_awaken_loop: "contextSwitches (awaken_loop ws s) = contextSwitches s"
  by (induction ws arbitrary: s) (auto split: option.splits prod.splits)

lemma cs_processMemoryQueue: "contextSwitches (state_of (processMemoryQueue s)) = contextSwitches s"
  by (cases "length (waitingForMem s)") (auto simp: processMemoryQueue_def split: option.splits)

lemma cs_terminateProcess: "contextSwitches (state_of (terminateProcess k s)) = contextSwitches s"
  by (auto simp: terminateProcess_def Let_def cs_processMemoryQueue split: option.splits)

lemma cs_schedule: "contextSwitches (state_of (schedule cfg s)) = contextSwitches s"
  by (auto simp: schedule_def Let_def split: option.splits)

lemma cs_maybeCreateRandomProcess: "contextSwitches (maybeCreateRandomProcess cfg d s) = contextSwitches s"
  by (auto simp: maybeCreateRandomProcess_def new_Process_def tryAllocateAndEnqueue_def Let_def
      split: option.splits prod.splits)

lemma cs_tick_execute: "contextSwitches (state_of (tick_execute cfg d s)) = contextSwitches s"
  by (auto simp: tick_execute_def Let_def cs_terminateProcess freeMemoryAndAwaken_def cs_awaken_loop
      split: option.splits)

lemma cs_and_then:
  "(\<And>s'. contextSwitches (state_of (f s')) = contextSwitches s') \<Longrightarrow>
   contextSwitches (state_of (and_then r f)) = contextSwitches (state_of r)"
  by (cases r) (simp_all add: and_then_def)

lemma cs_tick: "contextSwitches (state_of (tick cfg d s)) = contextSwitches s"
  by (simp add: tick_def Let_def cs_and_then cs_tick_memory_loop cs_tick_execute cs_schedule
      cs_tick_io_loop cs_maybeCreateRandomProcess)

section \<open>Creating a process by hand\<close>

lemma createManualProcess_NaN:
  "MIN_CPU_BURST cfg \<le> cb \<Longrightarrow> cb \<le> MAX_CPU_BURST cfg \<Longrightarrow>
   createManualProcess cfg NaN (Num cb) s =
     (None,
      s\<lparr>PID_COUNTER := PID_COUNTER s + 1,
        totalProcessesCreated := totalProcessesCreated s + 1,
        processStartTimes := AList.update (PID_COUNTER s) (tickCount s) (processStartTimes s),
        processes := AList.update (PID_COUNTER s)
          \<lparr>proc_pid = PID_COUNTER s, memReq = NaN, totalCpu = Num cb, remainingCpu = Num cb,
           state = EsperandoMem, memBlock = None, quantumLeft = TIME_QUANTUM cfg,
           ioRemaining = 0\<rparr> (processes s),
        waitingForMem := waitingForMem s @ [PID_COUNTER s]\<rparr>)"
  by (simp add: createManualProcess_def new_Process_def Let_def tryAllocateAndEnqueue_def
      firstFitAllocate_def)

lemma createManualProcess_numeric:
  "((mr < MIN_PROC_MEM cfg \<or> mr > MAX_PROC_MEM cfg \<or> cb < MIN_CPU_BURST cfg \<or> cb > MAX_CPU_BURST cfg)
      \<longrightarrow> snd (createManualProcess cfg (Num mr) (Num cb) s) = s
          \<and> fst (createManualProcess cfg (Num mr) (Num cb) s) \<noteq> None)
   \<and> (MIN_PROC_MEM cfg \<le> mr \<and> mr \<le> MAX_PROC_MEM cfg \<and> MIN_CPU_BURST cfg \<le> cb \<and> cb \<le> MAX_CPU_BURST cfg
      \<longrightarrow> createManualProcess cfg (Num mr) (Num cb) s
            = (None, maybeCreateRandomProcess cfg \<lparr>spawn = Some (mr, cb), io = i\<rparr> s)
          \<and> totalProcessesCreated (snd (createManualProcess cfg (Num mr) (Num cb) s))
            = totalProcessesCreated s + 1
          \<and> (readyQueue (snd (createManualProcess cfg (Num mr) (Num cb) s))
                = readyQueue s @ [PID_COUNTER s]
              \<and> waitingForMem (snd (createManualProcess cfg (Num mr) (Num cb) s)) = waitingForMem s
              \<and> map_option state (map_of (processes (snd (createManualProcess cfg (Num mr) (Num cb) s)))
                    (PID_COUNTER s)) = Some Listo
            \<or> waitingForMem (snd (createManualProcess cfg (Num mr) (Num cb) s))
                = waitingForMem s @ [PID_COUNTER s]
              \<and> readyQueue (snd (createManualProcess cfg (Num mr) (Num cb) s)) = readyQueue s
              \<and> map_option state (map_of (processes (snd (createManualProcess cfg (Num mr) (Num cb) s)))
                    (PID_COUNTER s)) = Some EsperandoMem))"
  by (auto simp: createManualProcess_def maybeCreateRandomProcess_def new_Process_def Let_def
      tryAllocateAndEnqueue_def update_conv' split: prod.splits option.splits)

section \<open>No queue entry outlives its process\<close>






































section \<open>The claims\<close>

text \<open>
  C1. Claim: every tick during which a process that is still in the process table waits
  for memory runs to its end without a fault, the retry at the end of the tick and the
  retry inside \<^verbatim>\<open>terminateProcess\<close> included. The code does not: from the initial
  state, four ticks that each draw a new process of 300 KB leave the fourth process
  waiting, and the last loop of that tick calls \<^verbatim>\<open>memoryManager.alloc\<close>, which is not a
  function. The tick throws with the state shown (the update of the page is not reached).
  \<open>tick_memory_loop_throws\<close> above shows the same for every state in which an entry of
  the queue has a process. In \<open>before_termination\<close> process 1 has one tick left to run
  and processes 4 and 5 wait: the tick ends process 1, \<^verbatim>\<open>freeMemoryAndAwaken\<close> gives
  its block to process 4, and \<^verbatim>\<open>processMemoryQueue\<close>, called by
  \<^verbatim>\<open>terminateProcess\<close>, throws for process 5.
\<close>

theorem C1_tick_throws_while_process_waits:
  "tick CONFIG spawn300 three_spawned =
     Threw NotAFunction
       \<lparr>PID_COUNTER = 5, tickCount = 4, completedProcesses = 0,
        totalWaitTime = Num 0, contextSwitches = 0, totalProcessesCreated = 4,
        processStartTimes = [(1, 1), (2, 2), (3, 3), (4, 4)], processWaitTimes = [],
        processes =
          [(1, \<lparr>proc_pid = 1, memReq = Num 300, totalCpu = Num 15, remainingCpu = Num 11,
                 state = Listo, memBlock = Some (0, 300), quantumLeft = 3, ioRemaining = 0\<rparr>),
           (2, \<lparr>proc_pid = 2, memReq = Num 300, totalCpu = Num 15, remainingCpu = Num 15,
                 state = Listo, memBlock = Some (300, 300), quantumLeft = 3, ioRemaining = 0\<rparr>),
           (3, \<lparr>proc_pid = 3, memReq = Num 300, totalCpu = Num 15, remainingCpu = Num 15,
                 state = Listo, memBlock = Some (600, 300), quantumLeft = 3, ioRemaining = 0\<rparr>),
           (4, \<lparr>proc_pid = 4, memReq = Num 300, totalCpu = Num 15, remainingCpu = Num 15,
                 state = EsperandoMem, memBlock = None, quantumLeft = 3, ioRemaining = 0\<rparr>)],
        readyQueue = [2, 3, 1], ioQueue = [], waitingForMem = [4], currentRunning = None,
        memoryManager =
          \<lparr>total_mem = 1024, free = [(900, 124)],
           allocs = [(1, 0, 300), (2, 300, 300), (3, 600, 300)]\<rparr>\<rparr>
   \<and> currentRunning before_termination = Some 1
   \<and> map_option remainingCpu (map_of (processes before_termination) 1) = Some (Num 1)
   \<and> waitingForMem before_termination = [4, 5]
   \<and> tick_execute CONFIG quiet before_termination
       = Threw NotAFunction (state_of (tick_execute CONFIG quiet before_termination))
   \<and> completedProcesses (state_of (tick_execute CONFIG quiet before_termination)) = 1
   \<and> waitingForMem (state_of (tick_execute CONFIG quiet before_termination)) = [5]
   \<and> readyQueue (state_of (tick_execute CONFIG quiet before_termination)) = [2, 3, 4]
   \<and> tick CONFIG quiet before_termination
       = Threw NotAFunction (state_of (tick CONFIG quiet before_termination))
   \<and> completedProcesses (state_of (tick CONFIG quiet before_termination)) = 1"
  unfolding three_spawned_def before_termination_def five_spawned_def by code_simp



text \<open>
  C3. Claim: after every call of any sequence of \<^verbatim>\<open>firstFitAllocate\<close> and
  \<^verbatim>\<open>freeAlloc\<close> calls on a manager of capacity \<open>total\<close>, the free sizes and the
  allocated sizes add up to \<open>total\<close>, and the free and allocated blocks are pairwise
  disjoint. As stated this fails: \<^verbatim>\<open>allocs.set(pid, ...)\<close> replaces the block a pid
  already holds, which is then neither free nor allocated. With capacity 100, allocating
  40 and then 50 for the same pid leaves 10 free and 50 allocated.
\<close>

theorem C3_second_block_for_a_pid_loses_the_first:
  "total_mem (run_calls [Allocate 1 40, Allocate 1 50] (new_MemoryManager 100)) = 100
   \<and> freeSpace (run_calls [Allocate 1 40, Allocate 1 50] (new_MemoryManager 100))
       + usedSpace (run_calls [Allocate 1 40, Allocate 1 50] (new_MemoryManager 100)) = 60"
  by (simp add: run_calls_def firstFitAllocate_def new_MemoryManager_def freeSpace_def
      usedSpace_def)

text \<open>
  C3, amended: the property holds after every call of a sequence on a manager of positive
  capacity (after the first \<open>k\<close> calls, for every \<open>k\<close>), when each
  \<^verbatim>\<open>firstFitAllocate\<close> asks for a positive size for a pid that holds no block at that
  moment (\<open>fresh_calls\<close>); this is how the simulator calls it. The list of all blocks,
  free and allocated, is then pairwise disjoint.
\<close>

theorem C3_conservation_fresh_pids:
  assumes "0 < tot" and "fresh_calls cs (new_MemoryManager tot)"
  shows "freeSpace (run_calls (take k cs) (new_MemoryManager tot))
           + usedSpace (run_calls (take k cs) (new_MemoryManager tot)) = tot
       \<and> pairwise_disjoint (free (run_calls (take k cs) (new_MemoryManager tot))
           @ map snd (allocs (run_calls (take k cs) (new_MemoryManager tot))))"
proof -
  let ?m0 = "new_MemoryManager tot"
  have inv0: "mm_inv ?m0" using assms(1) by (rule mm_inv_new)
  have "fresh_calls (take k cs) ?m0" using assms(2) by (rule fresh_calls_take)
  from fresh_calls_inv [OF this inv0]
  have inv: "mm_inv (run_calls (take k cs) ?m0)"
    and sum: "freeSpace (run_calls (take k cs) ?m0) + usedSpace (run_calls (take k cs) ?m0)
      = freeSpace ?m0 + usedSpace ?m0" by simp_all
  have "freeSpace ?m0 + usedSpace ?m0 = tot"
    by (simp add: freeSpace_def usedSpace_def new_MemoryManager_def)
  with sum mm_inv_disjoint [OF inv] show ?thesis by simp
qed

theorem C3_conservation_fresh_pids_witness:
  "(0::int) < 100
   \<and> fresh_calls [Allocate 1 40, Allocate 2 50, Allocate 3 20, Release 1, Allocate 3 20]
        (new_MemoryManager 100)
   \<and> take 4 [Allocate 1 40, Allocate 2 50, Allocate 3 20, Release 1, Allocate 3 20]
       = [Allocate 1 40, Allocate 2 50, Allocate 3 20, Release 1]
   \<and> freeSpace (run_calls
          (take 4 [Allocate 1 40, Allocate 2 50, Allocate 3 20, Release 1, Allocate 3 20])
          (new_MemoryManager 100))
       + usedSpace (run_calls
          (take 4 [Allocate 1 40, Allocate 2 50, Allocate 3 20, Release 1, Allocate 3 20])
          (new_MemoryManager 100)) = 100
   \<and> pairwise_disjoint
        (free (run_calls
           (take 4 [Allocate 1 40, Allocate 2 50, Allocate 3 20, Release 1, Allocate 3 20])
           (new_MemoryManager 100))
         @ map snd (allocs (run_calls
           (take 4 [Allocate 1 40, Allocate 2 50, Allocate 3 20, Release 1, Allocate 3 20])
           (new_MemoryManager 100))))"
proof -
  have h1: "(0::int) < 100" by simp
  have h2: "fresh_calls [Allocate 1 40, Allocate 2 50, Allocate 3 20, Release 1, Allocate 3 20]
        (new_MemoryManager 100)"
    by code_simp
  have h3: "take 4 [Allocate 1 40, Allocate 2 50, Allocate 3 20, Release 1, Allocate 3 20]
       = [Allocate 1 40, Allocate 2 50, Allocate 3 20, Release 1]"
    by simp
  from C3_conservation_fresh_pids [OF h1 h2, of 4] h1 h2 h3 show ?thesis by blast
qed

text \<open>
  C4. Claim: after every \<^verbatim>\<open>freeAlloc\<close> call the free list is sorted by start and no
  free block ends where another one starts. As stated this fails for a block of size 0:
  \<^verbatim>\<open>firstFitAllocate(1, 0)\<close> on a new manager of capacity 100 hands out \<open>(0, 0)\<close>
  and leaves the free block \<open>(0, 100)\<close> as it is, and \<^verbatim>\<open>freeAlloc(1)\<close> then puts
  \<open>(0, 0)\<close> behind it: the list is \<open>[(0, 100), (0, 0)]\<close>, and the free block \<open>(0, 0)\<close>
  ends at 0, where \<open>(0, 100)\<close> starts.
\<close>

theorem C4_zero_size_block_stays_adjacent:
  "free (freeAlloc 1 (run_calls [Allocate 1 0] (new_MemoryManager 100))) = [(0, 100), (0, 0)]
   \<and> fst (0::int, 0::int) + snd (0::int, 0::int) = fst (0::int, 100::int)"
  by code_simp

text \<open>
  C4, amended: after every \<^verbatim>\<open>freeAlloc\<close> call on a manager of positive capacity all
  of whose \<^verbatim>\<open>firstFitAllocate\<close> calls so far asked for positive sizes (every size the
  simulator asks for is at least \<^verbatim>\<open>MIN_PROC_MEM\<close>), the free list is sorted by start
  and no free block ends where a free block starts: the merge covers the whole list, not
  only the neighbours of the block released. A pid may be given a second block on the way.
\<close>

theorem C4_freeAlloc_no_adjacent:
  assumes "0 < tot" and "list_all positive_call cs"
  shows "sorted (map fst (free (freeAlloc p (run_calls cs (new_MemoryManager tot)))))
       \<and> (\<forall>a \<in> set (free (freeAlloc p (run_calls cs (new_MemoryManager tot)))).
            \<forall>c \<in> set (free (freeAlloc p (run_calls cs (new_MemoryManager tot)))).
              fst a + snd a \<noteq> fst c)"
proof -
  let ?m = "freeAlloc p (run_calls cs (new_MemoryManager tot))"
  have "mm_inv (run_calls cs (new_MemoryManager tot))"
    using assms by (simp add: positive_calls_inv mm_inv_new)
  then have "mm_inv ?m" by (rule mm_inv_freeAlloc)
  then have ok: "free_ok (free ?m)" by (simp add: mm_inv_def)
  from free_ok_starts [OF ok] have "sorted_wrt (<) (map fst (free ?m))"
    by (simp add: sorted_wrt_map)
  then have srt: "sorted (map fst (free ?m))" by (simp add: strict_sorted_iff)
  have "fst a + snd a \<noteq> fst c" if "a \<in> set (free ?m)" "c \<in> set (free ?m)" for a c
  proof (cases "a = c")
    case True
    from ok that(1) have "0 < snd a" by (simp add: free_ok_def)
    with True show ?thesis by simp
  next
    case False
    from ok that have "0 < snd a" "0 < snd c" by (simp_all add: free_ok_def)
    with free_ok_gap [OF ok that False] show ?thesis by auto
  qed
  with srt show ?thesis by blast
qed

text \<open>
  The witness releases the middle one of three blocks whose two neighbours are free
  already: the three free blocks become one.
\<close>

theorem C4_freeAlloc_no_adjacent_witness:
  "(0::int) < 100
   \<and> list_all positive_call [Allocate 1 40, Allocate 2 30, Allocate 3 30, Release 1, Release 3]
   \<and> free (run_calls [Allocate 1 40, Allocate 2 30, Allocate 3 30, Release 1, Release 3]
        (new_MemoryManager 100)) = [(0, 40), (70, 30)]
   \<and> free (freeAlloc 2
        (run_calls [Allocate 1 40, Allocate 2 30, Allocate 3 30, Release 1, Release 3]
          (new_MemoryManager 100))) = [(0, 100)]
   \<and> sorted (map fst (free (freeAlloc 2
        (run_calls [Allocate 1 40, Allocate 2 30, Allocate 3 30, Release 1, Release 3]
          (new_MemoryManager 100)))))"
proof -
  have h1: "(0::int) < 100" by simp
  have h2: "list_all positive_call
      [Allocate 1 40, Allocate 2 30, Allocate 3 30, Release 1, Release 3]"
    by simp
  have e1: "free (run_calls [Allocate 1 40, Allocate 2 30, Allocate 3 30, Release 1, Release 3]
        (new_MemoryManager 100)) = [(0, 40), (70, 30)]"
    by code_simp
  have e2: "free (freeAlloc 2
        (run_calls [Allocate 1 40, Allocate 2 30, Allocate 3 30, Release 1, Release 3]
          (new_MemoryManager 100))) = [(0, 100)]"
    by code_simp
  from C4_freeAlloc_no_adjacent [OF h1 h2, of 2] have
    "sorted (map fst (free (freeAlloc 2
        (run_calls [Allocate 1 40, Allocate 2 30, Allocate 3 30, Release 1, Release 3]
          (new_MemoryManager 100)))))"
    by (rule conjunct1)
  with h1 h2 e1 e2 show ?thesis by blast
qed



text \<open>
  C6. Claim: when the quantum of the running process reaches 0 on a tick it executes, and
  the ready queue is non-empty, the process becomes ready, joins the tail of the queue,
  and its quantum is reset at its next scheduling only, not at preemption; with an empty
  ready queue the quantum is refreshed and the process keeps running. The code resets the
  quantum at preemption too (\<^verbatim>\<open>p.quantumLeft = CONFIG.TIME_QUANTUM\<close> before the push):
  after three spawning ticks process 1 runs with one tick of quantum left and two
  processes are ready; the next tick preempts it, and it stands in the queue with a
  quantum of 3, not 0.
\<close>

theorem C6_quantum_is_reset_at_preemption:
  "currentRunning three_spawned = Some 1
   \<and> map_option quantumLeft (map_of (processes three_spawned) 1) = Some 1
   \<and> readyQueue three_spawned = [2, 3]
   \<and> readyQueue (state_of (tick CONFIG quiet three_spawned)) = [2, 3, 1]
   \<and> currentRunning (state_of (tick CONFIG quiet three_spawned)) = None
   \<and> map_option state (map_of (processes (state_of (tick CONFIG quiet three_spawned))) 1)
       = Some Listo
   \<and> map_option quantumLeft (map_of (processes (state_of (tick CONFIG quiet three_spawned))) 1)
       = Some 3"
  unfolding three_spawned_def by code_simp

text \<open>
  C6, amended: on a tick that the running process \<open>p\<close> executes without ending (no I/O
  draw, CPU time left after the step) and on which its quantum reaches 0: with a
  non-empty ready queue \<open>p\<close> becomes ready, its quantum is set to \<^verbatim>\<open>TIME_QUANTUM\<close> at
  once, it joins the tail of the ready queue and the CPU is left idle; with an empty ready
  queue its quantum is set to \<^verbatim>\<open>TIME_QUANTUM\<close> and nothing else changes, so it keeps
  running. \<open>tick_execute\<close> is the step of \<^verbatim>\<open>tick\<close> that executes the process.
\<close>

theorem C6_quantum_expiry:
  assumes "currentRunning s = Some c" and "map_of (processes s) c = Some p" and "io d = None"
    and "\<not> js_le (js_sub (remainingCpu p) (Num 1)) 0" and "quantumLeft p - 1 \<le> 0"
  shows "(readyQueue s \<noteq> [] \<longrightarrow>
            tick_execute cfg d s =
              Done (s\<lparr>processes := AList.update c
                        (p\<lparr>remainingCpu := js_sub (remainingCpu p) (Num 1),
                           state := Listo, quantumLeft := TIME_QUANTUM cfg\<rparr>) (processes s),
                      readyQueue := readyQueue s @ [proc_pid p],
                      currentRunning := None\<rparr>))
       \<and> (readyQueue s = [] \<longrightarrow>
            tick_execute cfg d s =
              Done (s\<lparr>processes := AList.update c
                        (p\<lparr>remainingCpu := js_sub (remainingCpu p) (Num 1),
                           quantumLeft := TIME_QUANTUM cfg\<rparr>) (processes s)\<rparr>))"
  using assms by (simp add: tick_execute_def Let_def)

text \<open>
  The witness: process 1 of \<open>three_spawned\<close> with two processes ready, and the only
  process of a run with a quantum of 1, which reaches 0 on every tick.
\<close>

theorem C6_quantum_expiry_witness:
  "currentRunning three_spawned = Some 1
   \<and> map_of (processes three_spawned) 1 =
       Some \<lparr>proc_pid = 1, memReq = Num 300, totalCpu = Num 15, remainingCpu = Num 12,
             state = Ejecutando, memBlock = Some (0, 300), quantumLeft = 1, ioRemaining = 0\<rparr>
   \<and> readyQueue three_spawned = [2, 3]
   \<and> tick_execute CONFIG quiet three_spawned =
       Done (three_spawned
         \<lparr>processes := AList.update 1
            \<lparr>proc_pid = 1, memReq = Num 300, totalCpu = Num 15, remainingCpu = Num 11,
             state = Listo, memBlock = Some (0, 300), quantumLeft = 3, ioRemaining = 0\<rparr>
            (processes three_spawned),
          readyQueue := [2, 3, 1], currentRunning := None\<rparr>)
   \<and> currentRunning alone_quantum1 = Some 1
   \<and> map_of (processes alone_quantum1) 1 =
       Some \<lparr>proc_pid = 1, memReq = Num 300, totalCpu = Num 15, remainingCpu = Num 14,
             state = Ejecutando, memBlock = Some (0, 300), quantumLeft = 1, ioRemaining = 0\<rparr>
   \<and> readyQueue alone_quantum1 = []
   \<and> tick_execute (CONFIG\<lparr>TIME_QUANTUM := 1\<rparr>) quiet alone_quantum1 =
       Done (alone_quantum1
         \<lparr>processes := AList.update 1
            \<lparr>proc_pid = 1, memReq = Num 300, totalCpu = Num 15, remainingCpu = Num 13,
             state = Ejecutando, memBlock = Some (0, 300), quantumLeft = 1, ioRemaining = 0\<rparr>
            (processes alone_quantum1)\<rparr>)"
proof -
  let ?p = "\<lparr>proc_pid = 1, memReq = Num 300, totalCpu = Num 15, remainingCpu = Num 12,
             state = Ejecutando, memBlock = Some (0, 300), quantumLeft = 1, ioRemaining = 0\<rparr>"
  let ?q = "\<lparr>proc_pid = 1, memReq = Num 300, totalCpu = Num 15, remainingCpu = Num 14,
             state = Ejecutando, memBlock = Some (0, 300), quantumLeft = 1, ioRemaining = 0\<rparr>"
  have a1: "currentRunning three_spawned = Some 1" by (simp add: three_spawned_eq)
  have a2: "map_of (processes three_spawned) 1 = Some ?p" by (simp add: three_spawned_eq)
  have a3: "io quiet = None" by (simp add: quiet_def)
  have a4: "\<not> js_le (js_sub (remainingCpu ?p) (Num 1)) 0" by simp
  have a5: "quantumLeft ?p - 1 \<le> 0" by simp
  have a6: "readyQueue three_spawned = [2, 3]" by (simp add: three_spawned_eq)
  have b1: "currentRunning alone_quantum1 = Some 1" by (simp add: alone_quantum1_eq)
  have b2: "map_of (processes alone_quantum1) 1 = Some ?q" by (simp add: alone_quantum1_eq)
  have b4: "\<not> js_le (js_sub (remainingCpu ?q) (Num 1)) 0" by simp
  have b5: "quantumLeft ?q - 1 \<le> 0" by simp
  have b6: "readyQueue alone_quantum1 = []" by (simp add: alone_quantum1_eq)
  from C6_quantum_expiry [OF a1 a2 a3 a4 a5, of CONFIG] a6
  have r1: "tick_execute CONFIG quiet three_spawned =
       Done (three_spawned
         \<lparr>processes := AList.update 1
            \<lparr>proc_pid = 1, memReq = Num 300, totalCpu = Num 15, remainingCpu = Num 11,
             state = Listo, memBlock = Some (0, 300), quantumLeft = 3, ioRemaining = 0\<rparr>
            (processes three_spawned),
          readyQueue := [2, 3, 1], currentRunning := None\<rparr>)"
    by (simp add: CONFIG_def)
  from C6_quantum_expiry [OF b1 b2 a3 b4 b5, of "CONFIG\<lparr>TIME_QUANTUM := 1\<rparr>"] b6
  have r2: "tick_execute (CONFIG\<lparr>TIME_QUANTUM := 1\<rparr>) quiet alone_quantum1 =
       Done (alone_quantum1
         \<lparr>processes := AList.update 1
            \<lparr>proc_pid = 1, memReq = Num 300, totalCpu = Num 15, remainingCpu = Num 13,
             state = Ejecutando, memBlock = Some (0, 300), quantumLeft = 1, ioRemaining = 0\<rparr>
            (processes alone_quantum1)\<rparr>)"
    by simp
  from a1 a2 a6 r1 b1 b2 b6 r2 show ?thesis by blast
qed

text \<open>
  C7. Claim: \<^verbatim>\<open>contextSwitches\<close> goes up by one at every preemption and at every block
  for I/O done by the tick, and at no other event. In the code no step of \<^verbatim>\<open>tick\<close>
  writes the counter (only \<^verbatim>\<open>executeCurrentProcess\<close>, which nothing calls, counts): a
  tick leaves it as it was, whatever happens. In the run below process 1 is preempted in
  the fourth tick and process 2 blocks for I/O in the fifth, and the counter is still 0.
\<close>

theorem C7_tick_never_counts_context_switches:
  "contextSwitches (state_of (tick cfg d s)) = contextSwitches s
   \<and> map_option state (map_of (processes (run_ticks CONFIG [small, small, quiet] (initial CONFIG))) 1)
       = Some Ejecutando
   \<and> map_option state
        (map_of (processes (run_ticks CONFIG [small, small, quiet, quiet] (initial CONFIG))) 1)
       = Some Listo
   \<and> readyQueue (run_ticks CONFIG [small, small, quiet, quiet] (initial CONFIG)) = [2, 1]
   \<and> map_option state
        (map_of (processes (run_ticks CONFIG [small, small, quiet, quiet, block2] (initial CONFIG))) 2)
       = Some Bloqueado
   \<and> ioQueue (run_ticks CONFIG [small, small, quiet, quiet, block2] (initial CONFIG)) = [2]
   \<and> contextSwitches (run_ticks CONFIG [small, small, quiet, quiet, block2] (initial CONFIG)) = 0"
proof (intro conjI)
  show "contextSwitches (state_of (tick cfg d s)) = contextSwitches s" by (rule cs_tick)
qed (code_simp+)

text \<open>
  C8. Claim: \<^verbatim>\<open>createManualProcess\<close> with a memory requirement or a CPU burst outside
  the bounds of the configuration is rejected before anything changes, and within the
  bounds it does what a tick does that spawns a process. For two numbers the code does
  this (\<open>createManualProcess_numeric\<close> above). The two arguments are
  \<^verbatim>\<open>parseInt\<close> of two form fields, though, and a field that is empty or holds no
  number gives \<^verbatim>\<open>NaN\<close>, for which both tests \<^verbatim>\<open>memReq < MIN\<close> and
  \<^verbatim>\<open>memReq > MAX\<close> are false: nothing is rejected. With the memory field empty and a
  CPU burst of 5, in the initial state, no error is shown, process 1 is created with the
  memory requirement \<^verbatim>\<open>NaN\<close>, it is counted, and it joins the waiting queue, where no
  release of memory can ever serve it.
\<close>

theorem C8_empty_field_is_not_rejected:
  "createManualProcess CONFIG NaN (Num 5) (initial CONFIG) =
     (None,
      \<lparr>PID_COUNTER = 2, tickCount = 0, completedProcesses = 0,
       totalWaitTime = Num 0, contextSwitches = 0, totalProcessesCreated = 1,
       processStartTimes = [(1, 0)], processWaitTimes = [],
       processes =
         [(1, \<lparr>proc_pid = 1, memReq = NaN, totalCpu = Num 5, remainingCpu = Num 5,
                state = EsperandoMem, memBlock = None, quantumLeft = 3, ioRemaining = 0\<rparr>)],
       readyQueue = [], ioQueue = [], waitingForMem = [1], currentRunning = None,
       memoryManager = \<lparr>total_mem = 1024, free = [(0, 1024)], allocs = []\<rparr>\<rparr>)
   \<and> fst (firstFitAllocate 1 NaN \<lparr>total_mem = 1024, free = [(0, 1024)], allocs = []\<rparr>) = None"
  by code_simp


text \<open>
  C10. \<^verbatim>\<open>freeAlloc(pid)\<close> for a pid with no entry in \<^verbatim>\<open>allocs\<close> returns the manager
  as it is. So the second release of one block does nothing: after
  \<^verbatim>\<open>freeMemoryAndAwaken(pid)\<close> the pid has no entry, whatever the retry has handed out
  to the waiting processes (none of which has this pid), and the \<^verbatim>\<open>freeAlloc(pid)\<close>
  that \<^verbatim>\<open>terminateProcess\<close> then makes changes nothing.
\<close>

theorem C10_free_without_block_is_noop:
  "(map_of (allocs m) p = None \<longrightarrow> freeAlloc p m = m)
   \<and> ((\<forall>w \<in> set (waitingForMem s). \<forall>q. map_of (processes s) w = Some q \<longrightarrow> proc_pid q \<noteq> k)
        \<longrightarrow> freeAlloc k (memoryManager (freeMemoryAndAwaken k s))
              = memoryManager (freeMemoryAndAwaken k s))"
proof (intro conjI impI)
  assume "map_of (allocs m) p = None"
  then show "freeAlloc p m = m" by (simp add: freeAlloc_def)
next
  assume w: "\<forall>w \<in> set (waitingForMem s). \<forall>q. map_of (processes s) w = Some q \<longrightarrow> proc_pid q \<noteq> k"
  let ?s1 = "s\<lparr>memoryManager := freeAlloc k (memoryManager s)\<rparr>"
  have "map_of (allocs (memoryManager (awaken_loop (waitingForMem ?s1) ?s1))) k = None"
    using w by (intro awaken_loop_keeps_unallocated) (simp_all add: freeAlloc_removes)
  then have "map_of (allocs (memoryManager (freeMemoryAndAwaken k s))) k = None"
    by (simp add: freeMemoryAndAwaken_def Let_def)
  then show "freeAlloc k (memoryManager (freeMemoryAndAwaken k s))
              = memoryManager (freeMemoryAndAwaken k s)"
    by (simp add: freeAlloc_def)
qed

text \<open>
  The witness: a pid that never had a block, and the release of the block of process 1
  in \<open>five_spawned\<close>, which hands the block to the waiting process 4.
\<close>

theorem C10_free_without_block_is_noop_witness:
  "map_of (allocs (memoryManager five_spawned)) 7 = None
   \<and> freeAlloc 7 (memoryManager five_spawned) = memoryManager five_spawned
   \<and> waitingForMem five_spawned = [4, 5]
   \<and> map_option proc_pid (map_of (processes five_spawned) 4) = Some 4
   \<and> map_option proc_pid (map_of (processes five_spawned) 5) = Some 5
   \<and> allocs (memoryManager (freeMemoryAndAwaken 1 five_spawned))
       = [(2, 300, 300), (3, 600, 300), (4, 0, 300)]
   \<and> freeAlloc 1 (memoryManager (freeMemoryAndAwaken 1 five_spawned))
       = memoryManager (freeMemoryAndAwaken 1 five_spawned)"
proof -
  have h1: "map_of (allocs (memoryManager five_spawned)) 7 = None"
    by (simp add: five_spawned_eq)
  have r1: "freeAlloc 7 (memoryManager five_spawned) = memoryManager five_spawned"
    using C10_free_without_block_is_noop [where m = "memoryManager five_spawned" and p = 7] h1
    by blast
  have w: "waitingForMem five_spawned = [4, 5]" by (simp add: five_spawned_eq)
  have p4: "map_option proc_pid (map_of (processes five_spawned) 4) = Some 4"
    by (simp add: five_spawned_eq)
  have p5: "map_option proc_pid (map_of (processes five_spawned) 5) = Some 5"
    by (simp add: five_spawned_eq)
  have h2: "\<forall>w \<in> set (waitingForMem five_spawned).
      \<forall>q. map_of (processes five_spawned) w = Some q \<longrightarrow> proc_pid q \<noteq> 1"
    using w p4 p5 by auto
  have r2: "freeAlloc 1 (memoryManager (freeMemoryAndAwaken 1 five_spawned))
       = memoryManager (freeMemoryAndAwaken 1 five_spawned)"
    using C10_free_without_block_is_noop [where s = five_spawned and k = 1] h2 by blast
  have e: "allocs (memoryManager (freeMemoryAndAwaken 1 five_spawned))
       = [(2, 300, 300), (3, 600, 300), (4, 0, 300)]"
    unfolding five_spawned_def by code_simp
  from h1 r1 w p4 p5 e r2 show ?thesis by blast
qed

end
